theory Spec2Isabelle
  imports Main "HOL-Library.Sublist"
begin

section \<open>Python strings\<close>

text \<open>
  A Python \<open>str\<close> is modelled as a \<open>string\<close> whose characters stand for the code
  points 0 to 255. Strings with larger code points are outside the model.
\<close>

text \<open>\<open>str.isspace\<close> on one character: the white space that \<open>split()\<close> and \<open>strip()\<close> use.\<close>

definition py_isspace :: "char \<Rightarrow> bool" where
  "py_isspace c =
     (let n = (of_char c :: nat)
      in (9 \<le> n \<and> n \<le> 13) \<or> (28 \<le> n \<and> n \<le> 32) \<or> n = 133 \<or> n = 160)"

definition ascii_lower_table :: "(char \<times> char) list" where
  "ascii_lower_table = zip ''ABCDEFGHIJKLMNOPQRSTUVWXYZ'' ''abcdefghijklmnopqrstuvwxyz''"

definition py_lower_char :: "char \<Rightarrow> char" where
  "py_lower_char c =
     (case map_of ascii_lower_table c of
        Some d \<Rightarrow> d
      | None \<Rightarrow>
          (let n = (of_char c :: nat)
           in if 192 \<le> n \<and> n \<le> 222 \<and> n \<noteq> 215 then char_of (n + 32) else c))"

text \<open>\<open>s.lower()\<close>\<close>

definition py_lower :: "string \<Rightarrow> string" where
  "py_lower s = map py_lower_char s"

text \<open>\<open>s.strip()\<close>\<close>

definition py_strip :: "string \<Rightarrow> string" where
  "py_strip s = rev (dropWhile py_isspace (rev (dropWhile py_isspace s)))"

text \<open>\<open>s.rstrip(chars)\<close>: every trailing character that occurs in \<open>chars\<close> goes.\<close>

definition py_rstrip :: "string \<Rightarrow> string \<Rightarrow> string" where
  "py_rstrip chars s = rev (dropWhile (\<lambda>c. c \<in> set chars) (rev s))"

text \<open>\<open>s.replace(a, b)\<close> for one-character \<open>a\<close> and \<open>b\<close>.\<close>

definition py_replace :: "char \<Rightarrow> char \<Rightarrow> string \<Rightarrow> string" where
  "py_replace a b s = map (\<lambda>c. if c = a then b else c) s"

text \<open>
  \<open>s.split()\<close>: the maximal runs of characters that are not white space, in order.
  The first argument is the token read so far.
\<close>

fun split_ws :: "string \<Rightarrow> string \<Rightarrow> string list" where
  "split_ws tok [] = (if tok = [] then [] else [tok])"
| "split_ws tok (c # cs) =
     (if py_isspace c
      then (if tok = [] then split_ws [] cs else tok # split_ws [] cs)
      else split_ws (tok @ [c]) cs)"

definition py_split :: "string \<Rightarrow> string list" where
  "py_split s = split_ws [] s"

text \<open>\<open>s.split(sep)\<close> for a one-character separator: empty pieces are kept.\<close>

fun py_split_on :: "char \<Rightarrow> string \<Rightarrow> string list" where
  "py_split_on sep [] = [[]]"
| "py_split_on sep (c # cs) =
     (if c = sep then [] # py_split_on sep cs
      else (case py_split_on sep cs of
              [] \<Rightarrow> [[c]]
            | t # ts \<Rightarrow> (c # t) # ts))"

text \<open>\<open>sep.join(parts)\<close>\<close>

fun py_join :: "string \<Rightarrow> string list \<Rightarrow> string" where
  "py_join sep [] = []"
| "py_join sep [p] = p"
| "py_join sep (p # q # ps) = p @ sep @ py_join sep (q # ps)"

text \<open>\<open>sub in s\<close> on strings\<close>

fun py_in :: "string \<Rightarrow> string \<Rightarrow> bool" where
  "py_in sub [] = (sub = [])"
| "py_in sub (c # cs) = (prefix sub (c # cs) \<or> py_in sub cs)"

text \<open>\<open>str(n)\<close> for a length\<close>

fun str_nat :: "nat \<Rightarrow> string" where
  "str_nat n =
     (if n < 10 then [''0123456789'' ! n]
      else str_nat (n div 10) @ [''0123456789'' ! (n mod 10)])"

declare str_nat.simps [simp del]

subsection \<open>The literals that \<open>int\<close> and \<open>float\<close> convert\<close>

definition is_digit :: "char \<Rightarrow> bool" where
  "is_digit c = (c \<in> set ''0123456789'')"

text \<open>No two underscores in a row.\<close>

fun single_underscores :: "string \<Rightarrow> bool" where
  "single_underscores (a # b # cs) =
     (\<not> (a = CHR ''_'' \<and> b = CHR ''_'') \<and> single_underscores (b # cs))"
| "single_underscores cs = True"

text \<open>Digits, with single underscores allowed between two digits.\<close>

definition digitpart :: "string \<Rightarrow> bool" where
  "digitpart s =
     (s \<noteq> [] \<and> is_digit (hd s) \<and> is_digit (last s)
      \<and> list_all (\<lambda>c. is_digit c \<or> c = CHR ''_'') s \<and> single_underscores s)"

definition drop_sign :: "string \<Rightarrow> string" where
  "drop_sign s =
     (case s of
        [] \<Rightarrow> []
      | c # cs \<Rightarrow> if c = CHR ''+'' \<or> c = CHR ''-'' then cs else s)"

text \<open>
  The white space that \<open>int\<close> and \<open>float\<close> skip around a literal: the ASCII white
  space of C, and the white space above 127, which the conversion turns into spaces
  first. The separators 28 to 31 are not skipped.
\<close>

definition num_isspace :: "char \<Rightarrow> bool" where
  "num_isspace c =
     (let n = (of_char c :: nat)
      in (9 \<le> n \<and> n \<le> 13) \<or> n = 32 \<or> n = 133 \<or> n = 160)"

definition num_strip :: "string \<Rightarrow> string" where
  "num_strip s = rev (dropWhile num_isspace (rev (dropWhile num_isspace s)))"

text \<open>
  The largest number of digits that \<open>int\<close> converts: \<open>sys.int_max_str_digits\<close>, which
  the interpreter sets to 4300 and the program leaves alone. The program imports
  \<open>tomllib\<close>, so its interpreter has the limit.
\<close>

definition int_max_str_digits :: nat where
  "int_max_str_digits = 4300"

text \<open>
  \<open>int(s)\<close> returns, that is, it does not raise \<open>ValueError\<close>: the text is a literal,
  and its digits, the underscores not counted, are no more than the limit.
\<close>

definition py_int_ok :: "string \<Rightarrow> bool" where
  "py_int_ok s =
     (digitpart (drop_sign (num_strip s))
      \<and> length (filter is_digit (drop_sign (num_strip s))) \<le> int_max_str_digits)"

text \<open>A mantissa: digits, digits with a fraction, or a fraction alone.\<close>

definition mantissa_ok :: "string \<Rightarrow> bool" where
  "mantissa_ok m =
     (let ip = takeWhile (\<lambda>c. c \<noteq> CHR ''.'') m;
          rest = dropWhile (\<lambda>c. c \<noteq> CHR ''.'') m
      in case rest of
           [] \<Rightarrow> digitpart ip
         | _ # fp \<Rightarrow>
             (ip = [] \<or> digitpart ip) \<and> (fp = [] \<or> digitpart fp) \<and> \<not> (ip = [] \<and> fp = []))"

definition is_exp_marker :: "char \<Rightarrow> bool" where
  "is_exp_marker c = (c = CHR ''e'' \<or> c = CHR ''E'')"

definition decimal_ok :: "string \<Rightarrow> bool" where
  "decimal_ok s =
     (let m = takeWhile (\<lambda>c. \<not> is_exp_marker c) s;
          rest = dropWhile (\<lambda>c. \<not> is_exp_marker c) s
      in case rest of
           [] \<Rightarrow> mantissa_ok m
         | _ # ex \<Rightarrow> mantissa_ok m \<and> digitpart (drop_sign ex))"

text \<open>
  \<open>float(s)\<close> returns, that is, it does not raise \<open>ValueError\<close>. There is no limit on
  the digits here.
\<close>

definition py_float_ok :: "string \<Rightarrow> bool" where
  "py_float_ok s =
     (let t = drop_sign (num_strip s)
      in py_lower t \<in> set [''inf'', ''infinity'', ''nan''] \<or> decimal_ok t)"

section \<open>Validators\<close>

text \<open>
  A validator maps a text to \<open>None\<close> (valid) or to an error text. The validators of
  \<open>validation.py\<close> are values that \<open>choose_validator\<close> returns and compares by
  identity, so each is a constructor here; \<open>V_enum\<close> is the closure that
  \<open>get_entry_metadata\<close> builds around the allowed values.
\<close>

datatype validator = V_non_empty | V_as_int | V_as_float | V_bool_flag | V_vector_values
  | V_enum "string list"

text \<open>
  Modelled from the spec: \<open>non_empty\<close> of \<open>validation.py\<close>, which is not among the
  sources. The error text is not known, so \<open>Some ()\<close> stands for it.
  "error iff trimmed input is empty".
\<close>

definition non_empty :: "string \<Rightarrow> unit option" where
  "non_empty v = (if py_strip v = [] then Some () else None)"

text \<open>The trimmed, semicolon-stripped text, as \<open>enum_validator\<close> computes it.\<close>

definition clean_text :: "string \<Rightarrow> string" where
  "clean_text v = py_strip (py_rstrip '';'' (py_strip v))"

text \<open>
  Modelled from the spec: \<open>as_int\<close> of \<open>validation.py\<close>. "error unless the
  (semicolon-stripped, trimmed) text parses as a base-10 integer literal".
\<close>

definition as_int :: "string \<Rightarrow> unit option" where
  "as_int v = (if py_int_ok (clean_text v) then None else Some ())"

text \<open>
  Modelled from the spec: \<open>as_float\<close> of \<open>validation.py\<close>. "error unless it parses as
  a floating-point literal (accepts integer literals too)".
\<close>

definition as_float :: "string \<Rightarrow> unit option" where
  "as_float v = (if py_float_ok (clean_text v) then None else Some ())"

text \<open>
  Modelled from the spec: \<open>bool_flag\<close> of \<open>validation.py\<close>. "error unless value
  case-insensitively matches one of a fixed accepted set (e.g. on/off/true/false/yes/no/0/1)".
\<close>

definition bool_flag :: "string \<Rightarrow> unit option" where
  "bool_flag v =
     (if py_lower (clean_text v) \<in>
           set [''on'', ''off'', ''true'', ''false'', ''yes'', ''no'', ''0'', ''1'']
      then None else Some ())"

text \<open>
  Modelled from the spec: \<open>vector_values\<close> of \<open>validation.py\<close>. "error unless the text,
  after stripping a single enclosing (...), splits on whitespace into exactly three
  tokens each individually valid floats; anything not shaped like ( a b c ) is rejected".
\<close>

definition vector_values :: "string \<Rightarrow> unit option" where
  "vector_values v =
     (let t = py_strip v
      in if 2 \<le> length t \<and> hd t = CHR ''('' \<and> last t = CHR '')''
         then (let toks = py_split (butlast (tl t))
               in if length toks = 3 \<and> list_all py_float_ok toks then None else Some ())
         else Some ())"

text \<open>
  \<open>enum_validator\<close>, the closure of \<open>get_entry_metadata\<close>; \<open>allowed_set\<close> is
  \<open>set(enum_values)\<close>, and \<open>sorted\<close> lists it without repetition.
\<close>

fun insert_sorted :: "string \<Rightarrow> string list \<Rightarrow> string list" where
  "insert_sorted x [] = [x]"
| "insert_sorted x (y # ys) =
     (if x = y then y # ys
      else if lexordp (\<lambda>a b. (of_char a :: nat) < of_char b) x y then x # y # ys
      else y # insert_sorted x ys)"

definition py_sorted_set :: "string list \<Rightarrow> string list" where
  "py_sorted_set xs = foldr insert_sorted xs []"

definition enum_validator :: "string list \<Rightarrow> string \<Rightarrow> string option" where
  "enum_validator enum_values v =
     (let text = clean_text v
      in if text \<in> set enum_values then None
         else Some (''Value must be one of: '' @ py_join '', '' (py_sorted_set enum_values) @ ''.''))"

text \<open>Whether a validator returns \<open>None\<close> on a text.\<close>

fun accepts :: "validator \<Rightarrow> string \<Rightarrow> bool" where
  "accepts V_non_empty v = (non_empty v = None)"
| "accepts V_as_int v = (as_int v = None)"
| "accepts V_as_float v = (as_float v = None)"
| "accepts V_bool_flag v = (bool_flag v = None)"
| "accepts V_vector_values v = (vector_values v = None)"
| "accepts (V_enum enum_values) v = (enum_validator enum_values v = None)"

section \<open>Choosing a validator (\<open>entry_meta.py\<close>)\<close>

definition guess_validator :: "string \<Rightarrow> validator" where
  "guess_validator key =
     (let lower = py_lower key
      in if list_ex (\<lambda>tok. py_in tok lower) [''on'', ''off'', ''switch'', ''enable'', ''disable'']
         then V_bool_flag
         else if list_ex (\<lambda>tok. py_in tok lower) [''iter'', ''step'', ''n'', ''count'']
         then V_as_int
         else if list_ex (\<lambda>tok. py_in tok lower)
                   [''tol'', ''dt'', ''time'', ''coeff'', ''alpha'', ''beta'']
         then V_as_float
         else V_non_empty)"

text \<open>The label that the end of \<open>choose_validator\<close> gives to a guessed validator.\<close>

definition guessed_label :: "validator \<Rightarrow> string" where
  "guessed_label validator =
     (if validator = V_bool_flag then ''boolean-like''
      else if validator = V_as_int then ''integer''
      else if validator = V_as_float then ''float''
      else ''text'')"

definition choose_validator :: "string \<Rightarrow> string \<Rightarrow> validator \<times> string" where
  "choose_validator key val =
     (if CHR ''('' \<in> set val \<and> CHR '')'' \<in> set val \<and> vector_values val = None
      then (V_vector_values, ''vector'')
      else
        (let tokens = py_split (py_replace (CHR '';'') (CHR '' '') val)
         in if tokens \<noteq> [] \<and> py_int_ok (last tokens)
                \<and> CHR ''.'' \<notin> set (last tokens) \<and> CHR ''e'' \<notin> set (py_lower (last tokens))
            then (V_as_int, ''integer'')
            else if tokens \<noteq> [] \<and> py_float_ok (last tokens)
            then (V_as_float, ''float'')
            else (guess_validator key, guessed_label (guess_validator key))))"

section \<open>Entry metadata and its cache (\<open>entry_meta.py\<close>)\<close>

text \<open>
  The dictionary engine of \<open>openfoam.py\<close> is not among the sources: it is a parameter.
  An \<open>engine\<close> is what the engine answers for the file that is open, at one moment:
  \<open>read_entry\<close> is \<open>None\<close> where the call raises \<open>OpenFOAMError\<close>; the other calls are
  made outside any \<open>try\<close> and are taken to return.
\<close>

record engine =
  read_entry :: "string \<Rightarrow> string option"
  list_subkeys :: "string \<Rightarrow> string list"
  get_entry_comments :: "string \<Rightarrow> string list"
  get_entry_info :: "string \<Rightarrow> string list"
  get_entry_enum_values :: "string \<Rightarrow> string list"

text \<open>The cached tuple: value, type label, subkeys, comments, info lines.\<close>

type_synonym cache_entry = "string \<times> string \<times> string list \<times> string list \<times> string list"

type_synonym cache = "string \<rightharpoonup> cache_entry"

text \<open>What \<open>get_entry_metadata\<close> returns: the cached tuple and the validator.\<close>

type_synonym metadata =
  "string \<times> string \<times> string list \<times> string list \<times> string list \<times> validator"

definition read_optional_entry :: "engine \<Rightarrow> string \<Rightarrow> string option" where
  "read_optional_entry eng key =
     (case read_entry eng key of None \<Rightarrow> None | Some v \<Rightarrow> Some (py_strip v))"

text \<open>Python's truth value of an optional string: \<open>None\<close> and the empty string are false.\<close>

definition truthy :: "string option \<Rightarrow> bool" where
  "truthy r = (case r of None \<Rightarrow> False | Some v \<Rightarrow> v \<noteq> [])"

definition boundary_condition_info :: "engine \<Rightarrow> string \<Rightarrow> string list" where
  "boundary_condition_info eng full_key =
     (let parts = py_split_on (CHR ''.'') full_key
      in if ''boundaryField'' \<notin> set parts then []
         else
           (let idx = length (takeWhile (\<lambda>p. p \<noteq> ''boundaryField'') parts)
            in if idx + 1 \<ge> length parts then []
               else
                 (let patch = parts ! (idx + 1);
                      patch_key = py_join ''.'' (take (idx + 2) parts);
                      bc_type = read_optional_entry eng (patch_key @ ''.type'');
                      bc_value = read_optional_entry eng (patch_key @ ''.value'')
                  in [if truthy bc_type
                      then ''BC '' @ patch @ '' type: '' @ the bc_type
                      else ''BC '' @ patch @ '': missing required entry ''
                             @ [CHR 0x27] @ ''type'' @ [CHR 0x27],
                      if truthy bc_value
                      then ''BC '' @ patch @ '' value: '' @ the bc_value
                      else ''BC '' @ patch @ '': value entry not found''])))"

definition get_entry_metadata :: "engine \<Rightarrow> cache \<Rightarrow> string \<Rightarrow> metadata \<times> cache" where
  "get_entry_metadata eng cache full_key =
     (case cache full_key of
        Some (val, type_label, subkeys, comments, info_lines) \<Rightarrow>
          ((val, type_label, subkeys, comments, info_lines, fst (choose_validator full_key val)),
           cache)
      | None \<Rightarrow>
          (let val = (case read_entry eng full_key of
                        None \<Rightarrow> ''<error reading value>''
                      | Some v \<Rightarrow> v);
               validator = fst (choose_validator full_key val);
               type_label = snd (choose_validator full_key val);
               subkeys = list_subkeys eng full_key;
               comments = get_entry_comments eng full_key;
               info_lines = get_entry_info eng full_key @ boundary_condition_info eng full_key;
               enum_values = get_entry_enum_values eng full_key
           in if enum_values \<noteq> []
              then
                (let info_lines' =
                       info_lines @ [''Allowed values: '' @ py_join '', '' enum_values]
                 in ((val, ''enum'', subkeys, comments, info_lines', V_enum enum_values),
                     cache(full_key \<mapsto> (val, ''enum'', subkeys, comments, info_lines'))))
              else
                ((val, type_label, subkeys, comments, info_lines, validator),
                 cache(full_key \<mapsto> (val, type_label, subkeys, comments, info_lines)))))"

definition refresh_entry_cache :: "engine \<Rightarrow> cache \<Rightarrow> string \<Rightarrow> cache" where
  "refresh_entry_cache eng cache full_key =
     (case read_entry eng full_key of
        None \<Rightarrow> cache
      | Some val \<Rightarrow>
          (let type_label = snd (choose_validator full_key val);
               subkeys = list_subkeys eng full_key;
               comments = get_entry_comments eng full_key;
               info_lines = get_entry_info eng full_key @ boundary_condition_info eng full_key
           in cache(full_key \<mapsto> (val, type_label, subkeys, comments, info_lines))))"

section \<open>The entry browser (\<open>browser.py\<close>)\<close>

text \<open>Python's \<open>xs[i]\<close>: a negative index counts from the end, \<open>None\<close> is \<open>IndexError\<close>.\<close>

definition py_nth :: "'a list \<Rightarrow> int \<Rightarrow> 'a option" where
  "py_nth xs i =
     (let n = int (length xs); j = (if i < 0 then n + i else i)
      in if 0 \<le> j \<and> j < n then Some (xs ! nat j) else None)"

text \<open>\<open>_entry_browser_scroll\<close>, with the height of the screen as an argument.\<close>

definition entry_browser_scroll :: "int \<Rightarrow> int \<Rightarrow> int \<Rightarrow> int \<Rightarrow> int" where
  "entry_browser_scroll index list_scroll height total_keys =
     (let list_rows = max 0 (height - 1 - 4)
      in if list_rows > 0
         then
           (let list_scroll1 =
                  (if index < list_scroll then index
                   else if index \<ge> list_scroll + list_rows then index - list_rows + 1
                   else list_scroll);
                max_scroll = max 0 (total_keys - list_rows)
            in if list_scroll1 > max_scroll then max_scroll else list_scroll1)
         else 0)"

text \<open>
  The loop of \<open>_search_entries\<close> over the steps that are left. The index is in range,
  being a remainder modulo the length \<open>n\<close> of a list that is not empty.
\<close>

definition haystack :: "string \<Rightarrow> string \<Rightarrow> string list \<Rightarrow> string" where
  "haystack key val comments = py_lower (py_join '' '' ([key, val] @ comments))"

fun search_loop ::
  "engine \<Rightarrow> string list \<Rightarrow> int \<Rightarrow> string \<Rightarrow> int \<Rightarrow> nat list \<Rightarrow> cache \<Rightarrow> int option \<times> cache"
where
  "search_loop eng keywords current_index q direction [] cache = (None, cache)"
| "search_loop eng keywords current_index q direction (step # steps) cache =
     (let n = int (length keywords);
          idx = (current_index + direction * int step) mod n;
          key = keywords ! nat idx
      in case get_entry_metadata eng cache key of
           ((val, type_label, subkeys, comments, info_lines, validator), cache') \<Rightarrow>
             if py_in q (haystack key val comments) then (Some idx, cache')
             else search_loop eng keywords current_index q direction steps cache')"

definition search_entries ::
  "engine \<Rightarrow> cache \<Rightarrow> string list \<Rightarrow> int \<Rightarrow> string \<Rightarrow> int \<Rightarrow> int option \<times> cache"
where
  "search_entries eng cache keywords current_index query direction =
     (if keywords = [] then (None, cache)
      else search_loop eng keywords current_index (py_lower query) direction
             [1 ..< Suc (length keywords)] cache)"

text \<open>
  \<open>_entry_browser_search\<close> when fzf is off, on the query that the user typed: the new
  index, the message shown through \<open>show_message\<close> if any, and the cache.
\<close>

definition entry_browser_search ::
  "engine \<Rightarrow> cache \<Rightarrow> string list \<Rightarrow> int \<Rightarrow> string \<Rightarrow> int option \<times> string option \<times> cache"
where
  "entry_browser_search eng cache keywords index query =
     (if query = [] then (None, None, cache)
      else
        (case search_entries eng cache keywords index query 1 of
           (new_index, cache') \<Rightarrow>
             (new_index,
              (if new_index = None
               then Some (''No matches for '' @ [CHR 0x27] @ query @ [CHR 0x27] @ ''.'')
               else None),
              cache')))"

text \<open>
  \<open>_entry_browser_inline_edit\<close>: the editor of \<open>editor.py\<close> runs, and writes to the file
  or not; \<open>eng_after\<close> is the engine on the file as the editor leaves it. Then the entry
  is refreshed, whatever the editor did.
\<close>

definition entry_browser_inline_edit :: "engine \<Rightarrow> cache \<Rightarrow> string \<Rightarrow> cache" where
  "entry_browser_inline_edit eng_after cache full_key =
     refresh_entry_cache eng_after cache full_key"

record browser_state =
  base_entry :: "string option"
  keyword_list :: "string list"
  index :: int
  stack :: "(string option \<times> string list \<times> int) list"
  cache_of :: cache
  list_scroll :: int
  shown :: "string list"

text \<open>
  The branch of the key loop of \<open>entry_browser_screen\<close> that a key code selects, in the
  order of the \<open>elif\<close> chain. \<open>Key_enter\<close> carries the engine as the editor leaves it,
  \<open>Key_search\<close> the query typed. The external editor, the file viewer, the help and the
  command line are not modelled.
\<close>

datatype key_event = Key_up | Key_down | Key_top | Key_bottom | Key_back
  | Key_enter engine | Key_resize | Key_search string

datatype browser_result = Running browser_state | Returned | Raised_IndexError

definition full_key_of :: "string option \<Rightarrow> string \<Rightarrow> string" where
  "full_key_of base key = (case base of None \<Rightarrow> key | Some b \<Rightarrow> b @ ''.'' @ key)"

text \<open>One round of the \<open>while True\<close> loop of \<open>entry_browser_screen\<close>.\<close>

definition browser_step :: "engine \<Rightarrow> int \<Rightarrow> browser_state \<Rightarrow> key_event \<Rightarrow> browser_result" where
  "browser_step eng height st ev =
     (case py_nth (keyword_list st) (index st) of
        None \<Rightarrow> Raised_IndexError
      | Some key \<Rightarrow>
          (let full_key = full_key_of (base_entry st) key;
               n = int (length (keyword_list st))
           in case get_entry_metadata eng (cache_of st) full_key of
                ((val, type_label, subkeys, comments, info_lines, validator), cache1) \<Rightarrow>
                  (let st1 = st\<lparr>cache_of := cache1,
                                 list_scroll :=
                                   entry_browser_scroll (index st) (list_scroll st) height n\<rparr>
                   in case ev of
                        Key_up \<Rightarrow> Running (st1\<lparr>index := (index st - 1) mod n\<rparr>)
                      | Key_down \<Rightarrow> Running (st1\<lparr>index := (index st + 1) mod n\<rparr>)
                      | Key_top \<Rightarrow> Running (st1\<lparr>index := 0\<rparr>)
                      | Key_bottom \<Rightarrow> Running (st1\<lparr>index := n - 1\<rparr>)
                      | Key_back \<Rightarrow>
                          (if stack st \<noteq> []
                           then (case last (stack st) of
                                   (b, ks, i) \<Rightarrow>
                                     Running (st1\<lparr>base_entry := b, keyword_list := ks, index := i,
                                                  stack := butlast (stack st)\<rparr>))
                           else Returned)
                      | Key_enter eng_after \<Rightarrow>
                          (if subkeys \<noteq> []
                           then Running
                                  (st1\<lparr>stack := stack st @ [(base_entry st, keyword_list st, index st)],
                                       base_entry := Some full_key,
                                       keyword_list := subkeys,
                                       index := 0\<rparr>)
                           else Running
                                  (st1\<lparr>cache_of :=
                                         entry_browser_inline_edit eng_after cache1 full_key\<rparr>))
                      | Key_resize \<Rightarrow> Running st1
                      | Key_search query \<Rightarrow>
                          (case entry_browser_search eng cache1 (keyword_list st) (index st) query of
                             (new_index, message, cache2) \<Rightarrow>
                               Running
                                 (st1\<lparr>cache_of := cache2,
                                      shown := shown st @ (case message of None \<Rightarrow> [] | Some m \<Rightarrow> [m]),
                                      index := (case new_index of None \<Rightarrow> index st | Some i \<Rightarrow> i)\<rparr>)))))"

section \<open>The check of a case in the background (\<open>app.py\<close>)\<close>

text \<open>
  \<open>FileCheckResult\<close> is declared in \<open>openfoam.py\<close>, which is not among the sources; these
  are the fields that \<open>app.py\<close> reads.
\<close>

record file_check_result =
  checked :: bool
  errors :: "string list"
  warnings :: "string list"

text \<open>The fields of \<open>AppState\<close> that the check writes. A path is a string.\<close>

record app_state =
  check_in_progress :: bool
  check_total :: nat
  check_done :: nat
  check_current :: "string option"
  check_results :: "(string \<rightharpoonup> file_check_result) option"

text \<open>The exceptions that the worker catches.\<close>

datatype process_error = OpenFOAMError | OSError

definition progress_callback :: "string \<Rightarrow> app_state \<Rightarrow> app_state" where
  "progress_callback path st =
     st\<lparr>check_done := check_done st + 1, check_current := Some path\<rparr>"

definition result_callback :: "string \<Rightarrow> file_check_result \<Rightarrow> app_state \<Rightarrow> app_state" where
  "result_callback path result st =
     st\<lparr>check_results :=
          Some ((case check_results st of None \<Rightarrow> Map.empty | Some m \<Rightarrow> m)(path \<mapsto> result))\<rparr>"

text \<open>
  Modelled from the spec: \<open>verify_case\<close> of \<open>openfoam.py\<close>, which is not among the
  sources. "For each file in a fixed, deterministic order: invoke a single-file check
  primitive; store a terminal result for it; only a process-level exception aborts the
  whole run, leaving files not yet reached without any stored result. After each file:
  update done and current before moving to the next."
  The argument lists the files in that order, each with what its check does: a result,
  or a process-level exception. The function returns the exception or the map of the
  results, and the states of the application after each callback.
\<close>

fun verify_case ::
  "(string \<times> (process_error + file_check_result)) list \<Rightarrow> (string \<rightharpoonup> file_check_result)
     \<Rightarrow> app_state \<Rightarrow> (process_error + (string \<rightharpoonup> file_check_result)) \<times> app_state list"
where
  "verify_case [] acc st = (Inr acc, [])"
| "verify_case ((path, Inl e) # rest) acc st = (Inl e, [])"
| "verify_case ((path, Inr result) # rest) acc st =
     (let st1 = result_callback path result st;
          st2 = progress_callback path st1
      in case verify_case rest (acc(path \<mapsto> result)) st2 of
           (out, trace) \<Rightarrow> (out, st1 # st2 # trace))"

text \<open>
  The \<open>worker\<close> of \<open>_start_check_thread\<close>: the states of the application that it goes
  through, from the one it sets up under the lock to the one it leaves.
\<close>

definition worker_trace ::
  "(string \<times> (process_error + file_check_result)) list \<Rightarrow> app_state \<Rightarrow> app_state list"
where
  "worker_trace files st =
     (let st0 = st\<lparr>check_in_progress := True, check_total := length files, check_done := 0,
                   check_current := None, check_results := Some Map.empty\<rparr>
      in case verify_case files Map.empty st0 of
           (out, trace) \<Rightarrow>
             (let results = (case out of Inl e \<Rightarrow> Map.empty | Inr m \<Rightarrow> m);
                  st_last = last (st0 # trace)
              in st0 # trace
                 @ [st_last\<lparr>check_results := Some results, check_in_progress := False\<rparr>]))"

text \<open>The state in which the worker leaves the application.\<close>

definition start_check_thread ::
  "(string \<times> (process_error + file_check_result)) list \<Rightarrow> app_state \<Rightarrow> app_state" where
  "start_check_thread files st = last (worker_trace files st)"

text \<open>The results that a state shows: \<open>state.check_results or {}\<close>.\<close>

definition results_of :: "app_state \<Rightarrow> (string \<rightharpoonup> file_check_result)" where
  "results_of st = (case check_results st of None \<Rightarrow> Map.empty | Some m \<Rightarrow> m)"

text \<open>The status that \<open>_check_labels\<close> computes for one file.\<close>

definition check_status :: "file_check_result option \<Rightarrow> string" where
  "check_status check =
     (case check of
        None \<Rightarrow> ''Not checked''
      | Some c \<Rightarrow>
          if \<not> checked c then ''Not checked''
          else if errors c \<noteq> [] then ''ERROR ('' @ str_nat (length (errors c)) @ '')''
          else if warnings c \<noteq> [] then ''Warn ('' @ str_nat (length (warnings c)) @ '')''
          else ''OK'')"

text \<open>
  The loop of \<open>_check_labels\<close>; \<open>rel\<close> renders a path relative to the case directory.
\<close>

fun check_labels_loop ::
  "(string \<Rightarrow> string) \<Rightarrow> (string \<rightharpoonup> file_check_result) \<Rightarrow> string list
     \<Rightarrow> string list \<times> file_check_result option list
     \<Rightarrow> string list \<times> file_check_result option list"
where
  "check_labels_loop rel results [] (labels, checks) = (labels, checks)"
| "check_labels_loop rel results (file_path # files) (labels, checks) =
     (let check = results file_path
      in check_labels_loop rel results files
           (labels @ [rel file_path @ '': '' @ check_status check], checks @ [check]))"

definition check_labels ::
  "(string \<Rightarrow> string) \<Rightarrow> string list \<Rightarrow> app_state \<Rightarrow> string list \<times> file_check_result option list"
where
  "check_labels rel files st = check_labels_loop rel (results_of st) files ([], [])"

text \<open>
  The classification as the specification words it, to compare with \<open>check_status\<close>:
  absent or not checked, then errors, then warnings, then OK.
\<close>

definition spec_classification :: "(string \<rightharpoonup> file_check_result) \<Rightarrow> string \<Rightarrow> string" where
  "spec_classification results file =
     (if results file = None \<or> \<not> checked (the (results file)) then ''Not checked''
      else if checked (the (results file)) \<and> errors (the (results file)) \<noteq> []
      then ''ERROR ('' @ str_nat (length (errors (the (results file)))) @ '')''
      else if checked (the (results file)) \<and> warnings (the (results file)) \<noteq> []
      then ''Warn ('' @ str_nat (length (warnings (the (results file)))) @ '')''
      else ''OK'')"

section \<open>Concrete cases\<close>

text \<open>The projections of the tuple that \<open>get_entry_metadata\<close> returns.\<close>

definition value_of :: "metadata \<Rightarrow> string" where
  "value_of m = fst m"

definition type_label_of :: "metadata \<Rightarrow> string" where
  "type_label_of m = fst (snd m)"

definition comments_of :: "metadata \<Rightarrow> string list" where
  "comments_of m = fst (snd (snd (snd m)))"

definition info_lines_of :: "metadata \<Rightarrow> string list" where
  "info_lines_of m = fst (snd (snd (snd (snd m))))"

definition validator_of :: "metadata \<Rightarrow> validator" where
  "validator_of m = snd (snd (snd (snd (snd m))))"

text \<open>
  A \<open>fvSolution\<close> file: the engine lists the allowed linear solvers for
  \<open>solvers.p.solver\<close>.
\<close>

definition solver_engine :: engine where
  "solver_engine =
     \<lparr>read_entry = (\<lambda>k. if k = ''solvers.p.solver'' then Some ''PCG'' else None),
      list_subkeys = (\<lambda>k. []),
      get_entry_comments = (\<lambda>k. []),
      get_entry_info = (\<lambda>k. []),
      get_entry_enum_values =
        (\<lambda>k. if k = ''solvers.p.solver'' then [''PCG'', ''GAMG'', ''smoothSolver''] else [])\<rparr>"

text \<open>
  A field file with one patch: \<open>boundaryField { inlet { type fixedValue; value uniform (1 0 0); } }\<close>.
\<close>

definition field_engine :: engine where
  "field_engine =
     \<lparr>read_entry =
        (\<lambda>k. if k = ''boundaryField.inlet.type'' then Some ''fixedValue''
             else if k = ''boundaryField.inlet.value'' then Some ''uniform (1 0 0)''
             else None),
      list_subkeys =
        (\<lambda>k. if k = ''boundaryField'' then [''inlet'']
             else if k = ''boundaryField.inlet'' then [''type'', ''value'']
             else []),
      get_entry_comments = (\<lambda>k. []),
      get_entry_info = (\<lambda>k. []),
      get_entry_enum_values = (\<lambda>k. [])\<rparr>"

text \<open>The browser inside the patch \<open>inlet\<close>, on the entry \<open>value\<close>.\<close>

definition inlet_state :: browser_state where
  "inlet_state =
     \<lparr>base_entry = Some ''boundaryField.inlet'',
      keyword_list = [''type'', ''value''],
      index = 1,
      stack = [(None, [''boundaryField''], 0), (Some ''boundaryField'', [''inlet''], 0)],
      cache_of = Map.empty,
      list_scroll = 0,
      shown = []\<rparr>"

text \<open>The browser at the top of the same file.\<close>

definition top_state :: browser_state where
  "top_state =
     \<lparr>base_entry = None,
      keyword_list = [''boundaryField''],
      index = 0,
      stack = [],
      cache_of = Map.empty,
      list_scroll = 0,
      shown = []\<rparr>"

text \<open>The application before any check, as \<open>AppState\<close> is created.\<close>

definition fresh_state :: app_state where
  "fresh_state =
     \<lparr>check_in_progress = False, check_total = 0, check_done = 0,
      check_current = None, check_results = None\<rparr>"

definition clean_result :: file_check_result where
  "clean_result = \<lparr>checked = True, errors = [], warnings = []\<rparr>"

definition two_errors :: file_check_result where
  "two_errors = \<lparr>checked = True, errors = [''e1'', ''e2''], warnings = []\<rparr>"

definition one_warning :: file_check_result where
  "one_warning = \<lparr>checked = True, errors = [], warnings = [''w1'']\<rparr>"

text \<open>A run in which the second file cannot be checked at all.\<close>

definition broken_run :: "(string \<times> (process_error + file_check_result)) list" where
  "broken_run =
     [(''system/controlDict'', Inr clean_result), (''system/fvSchemes'', Inl OSError)]"

text \<open>A run in which the third file cannot be checked at all.\<close>

definition late_broken_run :: "(string \<times> (process_error + file_check_result)) list" where
  "late_broken_run =
     [(''0/U'', Inr two_errors), (''0/p'', Inr one_warning), (''system/fvSolution'', Inl OpenFOAMError)]"

text \<open>A run of three files that all get a result.\<close>

definition good_run :: "(string \<times> (process_error + file_check_result)) list" where
  "good_run =
     [(''0/U'', Inr two_errors), (''0/p'', Inr one_warning), (''system/controlDict'', Inr clean_result)]"



text \<open>The files whose check completed, each with its result.\<close>

definition completed ::
  "(string \<times> file_check_result) list \<Rightarrow> (string \<times> (process_error + file_check_result)) list"
where
  "completed finished = map (\<lambda>x. (fst x, Inr (snd x))) finished"

text \<open>A stored result is kept from one state to the next.\<close>

definition results_kept :: "app_state \<Rightarrow> app_state \<Rightarrow> bool" where
  "results_kept s t = (results_of s \<subseteq>\<^sub>m results_of t)"

text \<open>The check returned a result.\<close>

definition checked_ok :: "string \<times> (process_error + file_check_result) \<Rightarrow> bool" where
  "checked_ok x = (case snd x of Inl e \<Rightarrow> False | Inr r \<Rightarrow> True)"

text \<open>
  The search as the specification words it: the first step of the cyclic scan at which
  the entry matches. The entry at an index is resolved against the cache as it is
  when the search starts, under the key that the argument \<open>full\<close> makes of the name.
\<close>

definition entry_matches :: "engine \<Rightarrow> cache \<Rightarrow> (string \<Rightarrow> string) \<Rightarrow> string \<Rightarrow> string \<Rightarrow> bool" where
  "entry_matches eng cache full query key =
     (let m = fst (get_entry_metadata eng cache (full key))
      in py_in (py_lower query) (haystack key (value_of m) (comments_of m)))"

definition scan_index :: "string list \<Rightarrow> int \<Rightarrow> int \<Rightarrow> nat \<Rightarrow> int" where
  "scan_index keywords current_index direction step =
     (current_index + direction * int step) mod int (length keywords)"

definition first_match ::
  "engine \<Rightarrow> cache \<Rightarrow> (string \<Rightarrow> string) \<Rightarrow> string list \<Rightarrow> int \<Rightarrow> string \<Rightarrow> int \<Rightarrow> nat option"
where
  "first_match eng cache full keywords current_index query direction =
     find (\<lambda>step. entry_matches eng cache full query
                    (keywords ! nat (scan_index keywords current_index direction step)))
          [1 ..< Suc (length keywords)]"

section \<open>Properties of the choice of a validator\<close>

lemmas string_defs = py_split_def py_replace_def py_isspace_def py_int_ok_def py_float_ok_def
  py_strip_def num_strip_def num_isspace_def int_max_str_digits_def py_rstrip_def drop_sign_def digitpart_def is_digit_def py_lower_def
  py_lower_char_def ascii_lower_table_def decimal_ok_def mantissa_ok_def is_exp_marker_def
  clean_text_def

lemmas choose_defs = choose_validator_def guess_validator_def guessed_label_def

text \<open>
  C4, as the specification states it: for the key \<open>relaxationFactor\<close> with the value
  \<open>linear\<close> no substring of the heuristic matches and the result is free text with the
  validator \<open>non_empty\<close>. The code does not return that.
\<close>

theorem relaxation_factor_not_text:
  "choose_validator ''relaxationFactor'' ''linear'' \<noteq> (V_non_empty, ''text'')"
  by (simp add: choose_defs string_defs)

text \<open>
  C4, amended: the value \<open>linear\<close> has no parenthesis, its only token is neither an
  integer nor a float, so the key decides; \<open>relaxationfactor\<close> contains \<open>on\<close>, the
  first substring of the heuristic, and the result is boolean-like with the validator
  \<open>bool_flag\<close>.
\<close>

theorem relaxation_factor_boolean_like:
  "CHR ''('' \<notin> set ''linear''
   \<and> py_split (py_replace (CHR '';'') (CHR '' '') ''linear'') = [''linear'']
   \<and> \<not> py_int_ok ''linear'' \<and> \<not> py_float_ok ''linear''
   \<and> py_in ''on'' (py_lower ''relaxationFactor'')
   \<and> guess_validator ''relaxationFactor'' = V_bool_flag
   \<and> choose_validator ''relaxationFactor'' ''linear'' = (V_bool_flag, ''boolean-like'')"
  by (simp add: choose_defs string_defs)

text \<open>Only \<open>e\<close> and \<open>E\<close> become \<open>e\<close> in lower case.\<close>

lemma py_lower_char_e: "py_lower_char c = CHR ''e'' \<Longrightarrow> c = CHR ''e'' \<or> c = CHR ''E''"
proof -
  assume a: "py_lower_char c = CHR ''e''"
  show ?thesis
  proof (cases "map_of ascii_lower_table c")
    case None
    let ?n = "of_char c :: nat"
    show ?thesis
    proof (cases "192 \<le> ?n \<and> ?n \<le> 222 \<and> ?n \<noteq> 215")
      case True
      with a None have "char_of (?n + 32) = CHR ''e''"
        by (simp add: py_lower_char_def)
      then have "(of_char (char_of (?n + 32) :: char) :: nat) = of_char (CHR ''e'')"
        by simp
      then have "(?n + 32) mod 256 = 101"
        by (simp add: of_char_of)
      moreover from True have "(?n + 32) mod 256 = ?n + 32"
        by simp
      ultimately show ?thesis using True by simp
    next
      case False
      with a None show ?thesis by (simp add: py_lower_char_def)
    qed
  next
    case (Some d)
    with a have d: "d = CHR ''e''" by (simp add: py_lower_char_def)
    from Some have "(c, d) \<in> set ascii_lower_table" by (rule map_of_SomeD)
    with d show ?thesis by (auto simp: ascii_lower_table_def)
  qed
qed

text \<open>What is stripped around a literal is white space.\<close>

lemma strip_chars: "c \<in> set s \<Longrightarrow> num_isspace c \<or> c \<in> set (num_strip s)"
proof -
  assume c: "c \<in> set s"
  let ?t = "dropWhile num_isspace s"
  have "set s = set (takeWhile num_isspace s) \<union> set ?t"
    by (metis set_append takeWhile_dropWhile_id)
  moreover have "set (rev ?t) =
      set (takeWhile num_isspace (rev ?t)) \<union> set (dropWhile num_isspace (rev ?t))"
    by (metis set_append takeWhile_dropWhile_id)
  ultimately have "c \<in> set (takeWhile num_isspace s)
      \<or> c \<in> set (takeWhile num_isspace (rev ?t)) \<or> c \<in> set (num_strip s)"
    using c by (auto simp: num_strip_def)
  then show ?thesis by (auto dest: set_takeWhileD)
qed

lemma digitpart_chars: "digitpart s \<Longrightarrow> c \<in> set s \<Longrightarrow> is_digit c \<or> c = CHR ''_''"
  by (auto simp: digitpart_def list_all_iff)

lemma drop_sign_chars:
  "c \<in> set s \<Longrightarrow> c = CHR ''+'' \<or> c = CHR ''-'' \<or> c \<in> set (drop_sign s)"
  by (cases s) (auto simp: drop_sign_def)

lemma py_int_ok_chars:
  assumes "py_int_ok s" "c \<in> set s"
  shows "num_isspace c \<or> c = CHR ''+'' \<or> c = CHR ''-'' \<or> c = CHR ''_'' \<or> is_digit c"
  using assms strip_chars[of c s] drop_sign_chars[of c "num_strip s"]
    digitpart_chars[of "drop_sign (num_strip s)" c]
  by (auto simp: py_int_ok_def)

text \<open>
  A text that \<open>int\<close> converts has no point and no exponent marker: the second test of
  the integer rule never fails.
\<close>

lemma py_int_ok_no_point: "py_int_ok s \<Longrightarrow> CHR ''.'' \<notin> set s"
  by (auto dest!: py_int_ok_chars simp: num_isspace_def is_digit_def)

lemma py_int_ok_no_exponent: "py_int_ok s \<Longrightarrow> CHR ''e'' \<notin> set (py_lower s)"
proof
  assume ok: "py_int_ok s" and "CHR ''e'' \<in> set (py_lower s)"
  then obtain c where c: "c \<in> set s" "py_lower_char c = CHR ''e''"
    by (auto simp: py_lower_def)
  from c(2) have "c = CHR ''e'' \<or> c = CHR ''E''" by (rule py_lower_char_e)
  with py_int_ok_chars[OF ok c(1)] show False
    by (auto simp: num_isspace_def is_digit_def)
qed

text \<open>
  C5: whatever the key, a value whose last token (semicolons read as spaces) parses as an
  integer, that is, \<open>int\<close> converts it (a literal within the limit of digits), is
  classified as integer, unless the value has both parentheses and passes the vector
  validator, in which case it is a vector.
\<close>

theorem choose_validator_integer:
  assumes "tokens = py_split (py_replace (CHR '';'') (CHR '' '') val)"
    and "tokens \<noteq> []" and "py_int_ok (last tokens)"
  shows "choose_validator key val =
    (if CHR ''('' \<in> set val \<and> CHR '')'' \<in> set val \<and> vector_values val = None
     then (V_vector_values, ''vector'') else (V_as_int, ''integer''))"
  using assms py_int_ok_no_point[of "last tokens"] py_int_ok_no_exponent[of "last tokens"]
  by (simp add: choose_validator_def)

theorem choose_validator_integer_witness:
  "[''5''] = py_split (py_replace (CHR '';'') (CHR '' '') ''5'') \<and> [''5''] \<noteq> []
   \<and> py_int_ok (last [''5''])
   \<and> choose_validator ''nIterations'' ''5'' = (V_as_int, ''integer'')"
proof -
  have a: "[''5''] = py_split (py_replace (CHR '';'') (CHR '' '') ''5'')"
    by (simp add: string_defs)
  have b: "[''5''] \<noteq> ([] :: string list)"
    by simp
  have c: "py_int_ok (last [''5''])"
    by (simp add: string_defs)
  from choose_validator_integer [OF a b c, of "''nIterations''"] a b c show ?thesis
    by simp
qed

text \<open>
  A token of more digits than the limit is not converted by \<open>int\<close>, and \<open>float\<close>
  converts it: the value is classified as float. Such a token does not parse as an
  integer, and the integer rule does not apply to it.
\<close>

lemma split_ws_replicate:
  "\<not> py_isspace c \<Longrightarrow>
     split_ws tok (replicate n c) = (if tok @ replicate n c = [] then [] else [tok @ replicate n c])"
proof (induction n arbitrary: tok)
  case 0
  show ?case by simp
next
  case (Suc n)
  from Suc.prems have "split_ws tok (replicate (Suc n) c) = split_ws (tok @ [c]) (replicate n c)"
    by simp
  also have "\<dots> = [(tok @ [c]) @ replicate n c]"
    using Suc.IH [OF Suc.prems, of "tok @ [c]"] by simp
  finally show ?case by simp
qed

lemma single_underscores_replicate:
  "c \<noteq> CHR ''_'' \<Longrightarrow> single_underscores (replicate n c)"
proof (induction n)
  case 0
  show ?case by simp
next
  case (Suc n)
  then show ?case by (cases n) simp_all
qed

lemma digitpart_ones: "0 < n \<Longrightarrow> digitpart (replicate n (CHR ''1''))"
  by (cases n) (simp_all add: digitpart_def is_digit_def single_underscores_replicate list_all_iff
      del: replicate_Suc)

lemma num_strip_ones: "num_strip (replicate n (CHR ''1'')) = replicate n (CHR ''1'')"
proof -
  have "dropWhile num_isspace (replicate n (CHR ''1'')) = replicate n (CHR ''1'')"
    by (rule dropWhile_eq_self_iff [THEN iffD2]) (cases n, simp_all add: num_isspace_def)
  then show ?thesis by (simp add: num_strip_def)
qed

lemma drop_sign_ones: "drop_sign (replicate n (CHR ''1'')) = replicate n (CHR ''1'')"
  by (cases n) (simp_all add: drop_sign_def)

lemma long_integer_is_float:
  assumes "int_max_str_digits < n"
  shows "\<not> py_int_ok (replicate n (CHR ''1''))
    \<and> choose_validator key (replicate n (CHR ''1'')) = (V_as_float, ''float'')"
proof -
  let ?v = "replicate n (CHR ''1'')"
  from assms have n: "0 < n" by simp
  have tokens: "py_split (py_replace (CHR '';'') (CHR '' '') ?v) = [?v]"
    using n by (simp add: py_split_def py_replace_def split_ws_replicate py_isspace_def)
  have digits: "length (filter is_digit ?v) = n"
    by (simp add: is_digit_def)
  have no_int: "\<not> py_int_ok ?v"
    using assms by (simp add: py_int_ok_def num_strip_ones drop_sign_ones digits)
  have mant: "mantissa_ok ?v"
    using n by (simp add: mantissa_ok_def takeWhile_replicate dropWhile_replicate digitpart_ones)
  have "decimal_ok ?v"
    using mant by (simp add: decimal_ok_def takeWhile_replicate dropWhile_replicate is_exp_marker_def)
  then have float: "py_float_ok ?v"
    by (simp add: py_float_ok_def num_strip_ones drop_sign_ones)
  have "CHR ''('' \<notin> set ?v"
    by simp
  with tokens no_int float show ?thesis
    by (simp add: choose_validator_def)
qed

section \<open>Properties of the metadata cache\<close>

text \<open>The labels that \<open>choose_validator\<close> can give; \<open>enum\<close> is not among them.\<close>

lemma choose_validator_labels:
  "snd (choose_validator key val) \<in> set [''vector'', ''integer'', ''float'', ''boolean-like'', ''text'']"
  by (simp add: choose_validator_def guessed_label_def Let_def)

lemma choose_validator_not_enum: "snd (choose_validator key val) \<noteq> ''enum''"
  using choose_validator_labels [of key val] by auto





text \<open>
  C10: for a key with a non-empty enum set, a refresh that reads the entry stores the label
  of \<open>choose_validator\<close>, which is never \<open>enum\<close>, and the info lines without the line of
  allowed values; a resolve against that cache returns this tuple with the validator of
  \<open>choose_validator\<close> and leaves the cache as it is; a resolve against the empty cache
  returns the label \<open>enum\<close>, the line of allowed values and the enum validator.
\<close>

theorem refresh_loses_enum:
  assumes "get_entry_enum_values eng key \<noteq> []" and "read_entry eng key = Some val"
    and "cache' = refresh_entry_cache eng cache key"
  shows "cache' key = Some (val, snd (choose_validator key val), list_subkeys eng key,
                             get_entry_comments eng key,
                             get_entry_info eng key @ boundary_condition_info eng key)
    \<and> snd (choose_validator key val) \<noteq> ''enum''
    \<and> get_entry_metadata eng cache' key =
         ((val, snd (choose_validator key val), list_subkeys eng key, get_entry_comments eng key,
           get_entry_info eng key @ boundary_condition_info eng key,
           fst (choose_validator key val)), cache')
    \<and> fst (get_entry_metadata eng Map.empty key) =
         (val, ''enum'', list_subkeys eng key, get_entry_comments eng key,
          get_entry_info eng key @ boundary_condition_info eng key
            @ [''Allowed values: '' @ py_join '', '' (get_entry_enum_values eng key)],
          V_enum (get_entry_enum_values eng key))"
  using assms choose_validator_not_enum [of key val]
  by (simp add: refresh_entry_cache_def get_entry_metadata_def Let_def)

theorem refresh_loses_enum_witness:
  "get_entry_enum_values solver_engine ''solvers.p.solver'' \<noteq> []
   \<and> read_entry solver_engine ''solvers.p.solver'' = Some ''PCG''
   \<and> refresh_entry_cache solver_engine Map.empty ''solvers.p.solver'' ''solvers.p.solver''
        = Some (''PCG'', ''text'', [], [], [])
   \<and> type_label_of (fst (get_entry_metadata solver_engine
        (refresh_entry_cache solver_engine Map.empty ''solvers.p.solver'') ''solvers.p.solver'')) = ''text''
   \<and> fst (get_entry_metadata solver_engine Map.empty ''solvers.p.solver'')
        = (''PCG'', ''enum'', [], [], [''Allowed values: PCG, GAMG, smoothSolver''],
           V_enum [''PCG'', ''GAMG'', ''smoothSolver''])"
proof -
  have a: "get_entry_enum_values solver_engine ''solvers.p.solver'' \<noteq> []"
    by (simp add: solver_engine_def)
  have b: "read_entry solver_engine ''solvers.p.solver'' = Some ''PCG''"
    by (simp add: solver_engine_def)
  have d: "snd (choose_validator ''solvers.p.solver'' ''PCG'') = ''text''"
    by (simp add: choose_defs string_defs)
  have e: "boundary_condition_info solver_engine ''solvers.p.solver'' = []"
    by (simp add: boundary_condition_info_def)
  from refresh_loses_enum [OF a b refl, of Map.empty] a b d e show ?thesis
    by (simp add: solver_engine_def type_label_of_def)
qed

text \<open>
  C3, on the code: the engine lists the allowed values of \<open>solvers.p.solver\<close>. The first
  resolve returns the enum validator. The second resolve, which hits the cache, returns
  the label \<open>enum\<close> with the validator \<open>non_empty\<close>, which accepts \<open>diagonal;\<close>, a
  text that is not an allowed value and that the enum validator rejects.
\<close>

theorem cache_hit_loses_enum_validator:
  "get_entry_enum_values solver_engine ''solvers.p.solver'' = [''PCG'', ''GAMG'', ''smoothSolver'']
   \<and> validator_of (fst (get_entry_metadata solver_engine Map.empty ''solvers.p.solver''))
       = V_enum [''PCG'', ''GAMG'', ''smoothSolver'']
   \<and> type_label_of (fst (get_entry_metadata solver_engine
         (snd (get_entry_metadata solver_engine Map.empty ''solvers.p.solver'')) ''solvers.p.solver''))
       = ''enum''
   \<and> validator_of (fst (get_entry_metadata solver_engine
         (snd (get_entry_metadata solver_engine Map.empty ''solvers.p.solver'')) ''solvers.p.solver''))
       = V_non_empty
   \<and> accepts V_non_empty ''diagonal;''
   \<and> clean_text ''diagonal;'' = ''diagonal''
   \<and> ''diagonal'' \<notin> set [''PCG'', ''GAMG'', ''smoothSolver'']
   \<and> \<not> accepts (V_enum [''PCG'', ''GAMG'', ''smoothSolver'']) ''diagonal;''"
proof -
  have d: "choose_validator ''solvers.p.solver'' ''PCG'' = (V_non_empty, ''text'')"
    by (simp add: choose_defs string_defs)
  have e: "boundary_condition_info solver_engine ''solvers.p.solver'' = []"
    by (simp add: boundary_condition_info_def)
  have f: "clean_text ''diagonal;'' = ''diagonal''"
    by (simp add: string_defs)
  have g: "py_strip ''diagonal;'' \<noteq> []"
    by (simp add: string_defs)
  have m1: "get_entry_metadata solver_engine Map.empty ''solvers.p.solver'' =
      ((''PCG'', ''enum'', [], [], [''Allowed values: PCG, GAMG, smoothSolver''],
        V_enum [''PCG'', ''GAMG'', ''smoothSolver'']),
       [''solvers.p.solver'' \<mapsto>
          (''PCG'', ''enum'', [], [], [''Allowed values: PCG, GAMG, smoothSolver''])])"
    using e by (simp add: get_entry_metadata_def solver_engine_def Let_def)
  have m2: "fst (get_entry_metadata solver_engine
      [''solvers.p.solver'' \<mapsto>
          (''PCG'', ''enum'', [], [], [''Allowed values: PCG, GAMG, smoothSolver''])]
      ''solvers.p.solver'') =
      (''PCG'', ''enum'', [], [], [''Allowed values: PCG, GAMG, smoothSolver''], V_non_empty)"
    using d by (simp add: get_entry_metadata_def)
  have h: "get_entry_enum_values solver_engine ''solvers.p.solver'' =
      [''PCG'', ''GAMG'', ''smoothSolver'']"
    by (simp add: solver_engine_def)
  show ?thesis
    using f g h
    by (simp add: m1 m2 validator_of_def type_label_of_def non_empty_def enum_validator_def)
qed

section \<open>Properties of the browser\<close>

lemma metadata_result_cases:
  fixes x :: "metadata \<times> cache"
  obtains val type_label subkeys comments info_lines validator cache1
  where "x = ((val, type_label, subkeys, comments, info_lines, validator), cache1)"
proof -
  obtain m c where "x = (m, c)" by (cases x)
  moreover obtain a b c1 d e f where "m = (a, b, c1, d, e, f)" by (cases m)
  ultimately show ?thesis using that by simp
qed

text \<open>
  C6: when Enter descends into a sub-dictionary (the stack grows), whatever its depth,
  Back in the next round returns to a state with the base key, the sibling keys, the
  index and the stack that the browser had before the descent.
\<close>

theorem descend_then_ascend:
  assumes "browser_step eng height st (Key_enter eng_after) = Running st1"
    and "length (stack st) < length (stack st1)"
  shows "\<exists>st2. browser_step eng' height' st1 Key_back = Running st2
           \<and> base_entry st2 = base_entry st \<and> keyword_list st2 = keyword_list st
           \<and> index st2 = index st \<and> stack st2 = stack st"
proof -
  from assms(1) obtain key where key: "py_nth (keyword_list st) (index st) = Some key"
    by (auto simp: browser_step_def split: option.splits)
  obtain val type_label subkeys comments info_lines validator cache1
    where meta: "get_entry_metadata eng (cache_of st) (full_key_of (base_entry st) key)
                   = ((val, type_label, subkeys, comments, info_lines, validator), cache1)"
    by (rule metadata_result_cases)
  have sub: "subkeys \<noteq> []"
  proof
    assume "subkeys = []"
    with assms key meta show False
      by (auto simp: browser_step_def Let_def)
  qed
  with assms(1) key meta have st1:
    "stack st1 = stack st @ [(base_entry st, keyword_list st, index st)]"
    "keyword_list st1 = subkeys" "index st1 = 0"
    by (auto simp: browser_step_def Let_def)
  from sub st1 have nth: "py_nth (keyword_list st1) (index st1) = Some (hd subkeys)"
    by (cases subkeys) (simp_all add: py_nth_def)
  obtain m c where "get_entry_metadata eng' (cache_of st1)
                      (full_key_of (base_entry st1) (hd subkeys)) = (m, c)"
    by (cases "get_entry_metadata eng' (cache_of st1) (full_key_of (base_entry st1) (hd subkeys))")
  with nth st1 show ?thesis
    by (cases m) (simp add: browser_step_def Let_def)
qed

theorem descend_then_ascend_witness:
  "\<exists>st1. browser_step field_engine 24 top_state (Key_enter field_engine) = Running st1
      \<and> length (stack top_state) < length (stack st1)
      \<and> (\<exists>st2. browser_step field_engine 24 st1 Key_back = Running st2
            \<and> base_entry st2 = base_entry top_state \<and> keyword_list st2 = keyword_list top_state
            \<and> index st2 = index top_state \<and> stack st2 = stack top_state)"
proof -
  let ?st1 = "top_state\<lparr>cache_of := snd (get_entry_metadata field_engine Map.empty ''boundaryField''),
      list_scroll := 0,
      stack := [(None, [''boundaryField''], 0)], base_entry := Some ''boundaryField'',
      keyword_list := [''inlet''], index := 0\<rparr>"
  have a: "browser_step field_engine 24 top_state (Key_enter field_engine) = Running ?st1"
    by (simp add: browser_step_def top_state_def py_nth_def full_key_of_def get_entry_metadata_def
        field_engine_def Let_def entry_browser_scroll_def)
  have b: "length (stack top_state) < length (stack ?st1)"
    by (simp add: top_state_def)
  from descend_then_ascend [OF a b, of field_engine 24] a b show ?thesis by blast
qed

text \<open>
  Resolving a key changes what the cache holds for that key at most, and the value and
  the comments that a later resolve returns for any key stay the same.
\<close>

lemma get_entry_metadata_cong:
  "c1 k = c2 k \<Longrightarrow> fst (get_entry_metadata eng c1 k) = fst (get_entry_metadata eng c2 k)"
  by (cases "c2 k") (simp_all add: get_entry_metadata_def Let_def split: prod.split)

lemma resolved_value_stable:
  "value_of (fst (get_entry_metadata eng (snd (get_entry_metadata eng cache k0)) k))
     = value_of (fst (get_entry_metadata eng cache k))
   \<and> comments_of (fst (get_entry_metadata eng (snd (get_entry_metadata eng cache k0)) k))
     = comments_of (fst (get_entry_metadata eng cache k))"
proof (cases "cache k0")
  case (Some entry)
  then have "snd (get_entry_metadata eng cache k0) = cache"
    by (cases entry) (simp add: get_entry_metadata_def)
  then show ?thesis by simp
next
  case None
  show ?thesis
  proof (cases "k = k0")
    case True
    with None show ?thesis
      by (simp add: get_entry_metadata_def Let_def value_of_def comments_of_def)
  next
    case False
    with None have "snd (get_entry_metadata eng cache k0) k = cache k"
      by (simp add: get_entry_metadata_def Let_def)
    then have "fst (get_entry_metadata eng (snd (get_entry_metadata eng cache k0)) k)
        = fst (get_entry_metadata eng cache k)"
      by (rule get_entry_metadata_cong)
    then show ?thesis
      by simp
  qed
qed

lemma entry_matches_stable:
  "entry_matches eng (snd (get_entry_metadata eng cache k0)) full query key
     = entry_matches eng cache full query key"
  by (simp add: entry_matches_def Let_def resolved_value_stable)

text \<open>
  The loop of \<open>_search_entries\<close> returns the index of the first step of the scan at which
  the entry, resolved under its bare name, matches.
\<close>

lemma search_loop_first_match:
  assumes "\<And>key. entry_matches eng cache' (\<lambda>k. k) query key = entry_matches eng cache (\<lambda>k. k) query key"
  shows "fst (search_loop eng keywords current_index (py_lower query) direction steps cache')
     = map_option (scan_index keywords current_index direction)
         (find (\<lambda>step. entry_matches eng cache (\<lambda>k. k) query
                  (keywords ! nat (scan_index keywords current_index direction step))) steps)"
  using assms
proof (induction steps arbitrary: cache')
  case Nil
  show ?case by simp
next
  case (Cons step steps)
  let ?idx = "scan_index keywords current_index direction step"
  let ?key = "keywords ! nat ?idx"
  obtain val type_label subkeys comments info_lines validator cache''
    where meta: "get_entry_metadata eng cache' ?key
                   = ((val, type_label, subkeys, comments, info_lines, validator), cache'')"
    by (rule metadata_result_cases)
  then have hit: "py_in (py_lower query) (haystack ?key val comments)
      = entry_matches eng cache (\<lambda>k. k) query ?key"
    using Cons.prems [of ?key]
    by (simp add: entry_matches_def value_of_def comments_of_def)
  have next_cache: "entry_matches eng cache'' (\<lambda>k. k) query key
      = entry_matches eng cache (\<lambda>k. k) query key" for key
    using entry_matches_stable [of eng cache' ?key "\<lambda>k. k" query key] meta Cons.prems [of key]
    by simp
  have unfold: "search_loop eng keywords current_index (py_lower query) direction (step # steps) cache'
      = (if py_in (py_lower query) (haystack ?key val comments) then (Some ?idx, cache'')
         else search_loop eng keywords current_index (py_lower query) direction steps cache'')"
    using meta by (simp add: scan_index_def Let_def)
  show ?case
    unfolding unfold using hit Cons.IH [OF next_cache] by simp
qed

lemma search_entries_first_match:
  "fst (search_entries eng cache keywords current_index query direction)
     = map_option (scan_index keywords current_index direction)
         (first_match eng cache (\<lambda>k. k) keywords current_index query direction)"
  by (simp add: search_entries_def first_match_def search_loop_first_match)

text \<open>
  C7, on the code: inside the patch \<open>inlet\<close> the entry \<open>type\<close> has the value
  \<open>fixedValue\<close>, so the scan for \<open>fixed\<close> from the index 1 finds it at its first step,
  at the index 0. \<open>_search_entries\<close> resolves every key under its bare name, not under
  \<open>boundaryField.inlet\<close>: it returns no index, the browser shows that there are no
  matches and the index stays 1.
\<close>

theorem search_misses_nested_value:
  "base_entry inlet_state = Some ''boundaryField.inlet''
   \<and> keyword_list inlet_state = [''type'', ''value''] \<and> index inlet_state = 1
   \<and> value_of (fst (get_entry_metadata field_engine Map.empty
         (full_key_of (base_entry inlet_state) ''type''))) = ''fixedValue''
   \<and> first_match field_engine Map.empty (full_key_of (base_entry inlet_state))
         (keyword_list inlet_state) (index inlet_state) ''fixed'' 1 = Some 1
   \<and> scan_index (keyword_list inlet_state) (index inlet_state) 1 1 = 0
   \<and> fst (search_entries field_engine Map.empty (keyword_list inlet_state)
         (index inlet_state) ''fixed'' 1) = None
   \<and> browser_step field_engine 24 inlet_state (Key_search ''fixed'')
       = Running (inlet_state
           \<lparr>cache_of := snd (search_entries field_engine
                (snd (get_entry_metadata field_engine Map.empty ''boundaryField.inlet.value''))
                [''type'', ''value''] 1 ''fixed'' 1),
             list_scroll := 0,
             shown := [''No matches for '' @ [CHR 0x27] @ ''fixed'' @ [CHR 0x27] @ ''.''],
             index := 1\<rparr>)"
proof -
  let ?kws = "[''type'', ''value'']"
  let ?c1 = "snd (get_entry_metadata field_engine Map.empty ''boundaryField.inlet.value'')"
  have st: "base_entry inlet_state = Some ''boundaryField.inlet''"
    "keyword_list inlet_state = ?kws" "index inlet_state = 1"
    "cache_of inlet_state = Map.empty" "list_scroll inlet_state = 0" "shown inlet_state = []"
    by (simp_all add: inlet_state_def)
  have v: "value_of (fst (get_entry_metadata field_engine Map.empty ''boundaryField.inlet.type''))
      = ''fixedValue''"
    by (simp add: get_entry_metadata_def field_engine_def value_of_def Let_def)
  have c: "comments_of (fst (get_entry_metadata field_engine Map.empty ''boundaryField.inlet.type''))
      = []"
    by (simp add: get_entry_metadata_def field_engine_def comments_of_def Let_def)
  have full_hit: "entry_matches field_engine Map.empty (full_key_of (Some ''boundaryField.inlet''))
      ''fixed'' ''type''"
    by (simp add: entry_matches_def full_key_of_def v c haystack_def py_lower_def py_lower_char_def
        ascii_lower_table_def)
  have bare: "value_of (fst (get_entry_metadata field_engine Map.empty key)) = ''<error reading value>''
      \<and> comments_of (fst (get_entry_metadata field_engine Map.empty key)) = []"
    if "key = ''type'' \<or> key = ''value''" for key
    using that
    by (auto simp: get_entry_metadata_def field_engine_def value_of_def comments_of_def Let_def)
  have miss_type: "\<not> entry_matches field_engine Map.empty (\<lambda>k. k) ''fixed'' ''type''"
    by (simp add: entry_matches_def bare haystack_def py_lower_def py_lower_char_def
        ascii_lower_table_def)
  have miss_value: "\<not> entry_matches field_engine Map.empty (\<lambda>k. k) ''fixed'' ''value''"
    by (simp add: entry_matches_def bare haystack_def py_lower_def py_lower_char_def
        ascii_lower_table_def)
  have scan: "scan_index ?kws 1 1 1 = 0" "scan_index ?kws 1 1 (Suc 0) = 0"
    "scan_index ?kws 1 1 2 = 1" "scan_index ?kws 1 1 (Suc (Suc 0)) = 1"
    by (simp_all add: scan_index_def)
  have fm_full: "first_match field_engine Map.empty (full_key_of (Some ''boundaryField.inlet''))
      ?kws 1 ''fixed'' 1 = Some 1"
    using full_hit by (simp add: first_match_def scan)
  have fm0: "first_match field_engine Map.empty (\<lambda>k. k) ?kws 1 ''fixed'' 1 = None"
    using miss_type miss_value by (simp add: first_match_def scan)
  have fm1: "first_match field_engine ?c1 (\<lambda>k. k) ?kws 1 ''fixed'' 1 = None"
    using miss_type miss_value by (simp add: first_match_def scan entry_matches_stable)
  have s0: "fst (search_entries field_engine Map.empty ?kws 1 ''fixed'' 1) = None"
    by (simp only: search_entries_first_match fm0 option.map)
  have s1: "fst (search_entries field_engine ?c1 ?kws 1 ''fixed'' 1) = None"
    by (simp only: search_entries_first_match fm1 option.map)
  have search: "entry_browser_search field_engine ?c1 ?kws 1 ''fixed'' =
      (None, Some (''No matches for '' @ [CHR 0x27] @ ''fixed'' @ [CHR 0x27] @ ''.''),
       snd (search_entries field_engine ?c1 ?kws 1 ''fixed'' 1))"
  proof -
    obtain r c' where se: "search_entries field_engine ?c1 ?kws 1 ''fixed'' 1 = (r, c')"
      by (cases "search_entries field_engine ?c1 ?kws 1 ''fixed'' 1")
    with s1 have "r = None" by simp
    with se show ?thesis by (simp add: entry_browser_search_def)
  qed
  obtain val type_label subkeys comments info_lines validator cache1
    where meta: "get_entry_metadata field_engine Map.empty ''boundaryField.inlet.value''
                   = ((val, type_label, subkeys, comments, info_lines, validator), cache1)"
    by (rule metadata_result_cases)
  then have c1: "?c1 = cache1"
    by simp
  have scroll: "entry_browser_scroll 1 0 24 2 = 0"
    by (simp add: entry_browser_scroll_def)
  have step: "browser_step field_engine 24 inlet_state (Key_search ''fixed'')
       = Running (inlet_state
           \<lparr>cache_of := snd (search_entries field_engine ?c1 ?kws 1 ''fixed'' 1),
             list_scroll := 0,
             shown := [''No matches for '' @ [CHR 0x27] @ ''fixed'' @ [CHR 0x27] @ ''.''],
             index := 1\<rparr>)"
    using search unfolding c1
    by (simp add: browser_step_def st py_nth_def full_key_of_def meta scroll)
  show ?thesis
    using v fm_full scan(1) s0 step by (simp add: st full_key_of_def)
qed

section \<open>Properties of the check\<close>

lemma check_labels_loop_eq:
  "check_labels_loop rel results files (labels, checks) =
     (labels @ map (\<lambda>f. rel f @ '': '' @ check_status (results f)) files,
      checks @ map results files)"
  by (induction files arbitrary: labels checks) (simp_all add: Let_def)

lemma check_status_spec: "check_status (results file) = spec_classification results file"
  by (cases "results file") (simp_all add: check_status_def spec_classification_def)

text \<open>
  C9: the label of each file is its relative path and the classification of the
  specification: "Not checked" when the result is absent or not checked, "ERROR (n)"
  when there are errors, else "Warn (n)" when there are warnings, else "OK".
\<close>

theorem check_labels_classification:
  "check_labels rel files st =
     (map (\<lambda>f. rel f @ '': '' @ spec_classification (results_of st) f) files,
      map (results_of st) files)"
  by (simp add: check_labels_def check_labels_loop_eq check_status_spec)

theorem check_labels_classification_witness:
  "check_labels (\<lambda>f. f) [''0/U'', ''0/p'', ''system/controlDict'', ''system/fvSchemes'']
     (start_check_thread good_run fresh_state)
   = ([''0/U: ERROR (2)'', ''0/p: Warn (1)'', ''system/controlDict: OK'',
       ''system/fvSchemes: Not checked''],
      [Some two_errors, Some one_warning, Some clean_result, None])"
  using check_labels_classification [of "\<lambda>f. f"
      "[''0/U'', ''0/p'', ''system/controlDict'', ''system/fvSchemes'']"
      "start_check_thread good_run fresh_state"]
  by (simp add: spec_classification_def results_of_def start_check_thread_def worker_trace_def
      good_run_def fresh_state_def result_callback_def progress_callback_def
      two_errors_def one_warning_def clean_result_def str_nat.simps)

lemma results_of_result_callback [simp]:
  "results_of (result_callback path result st) = (results_of st)(path \<mapsto> result)"
  by (simp add: results_of_def result_callback_def)

lemma results_of_progress_callback [simp]:
  "results_of (progress_callback path st) = results_of st"
  by (simp add: results_of_def progress_callback_def)

lemma upd_then_add: "m(p \<mapsto> r) ++ n = m ++ ([p \<mapsto> r] ++ n)"
  by (rule ext) (simp add: map_add_def split: option.split)

lemma last_two_more: "last (a # b # c # xs) = last (c # xs)"
  by simp

lemma verify_case_abort:
  assumes "verify_case (completed finished @ (path, Inl e) # rest) acc st = (out, trace)"
  shows "out = Inl e \<and> results_of (last (st # trace)) = results_of st ++ map_of (rev finished)"
  using assms
proof (induction finished arbitrary: acc st out trace)
  case Nil
  then show ?case by (simp add: completed_def)
next
  case (Cons x finished)
  obtain p r where x: "x = (p, r)" by (cases x)
  let ?st1 = "result_callback p r st"
  let ?st2 = "progress_callback p ?st1"
  obtain out' trace' where rec:
    "verify_case (completed finished @ (path, Inl e) # rest) (acc(p \<mapsto> r)) ?st2 = (out', trace')"
    by (cases "verify_case (completed finished @ (path, Inl e) # rest) (acc(p \<mapsto> r)) ?st2")
  from Cons.prems rec have eq: "out = out'" "trace = ?st1 # ?st2 # trace'"
    by (simp_all add: x completed_def Let_def)
  note ih = conjunct1 [OF Cons.IH [OF rec]] conjunct2 [OF Cons.IH [OF rec]]
  have "results_of (last (st # trace)) = results_of (last (?st2 # trace'))"
    unfolding eq by (rule arg_cong [OF last_two_more])
  also have "\<dots> = results_of ?st2 ++ map_of (rev finished)"
    by (rule ih(2))
  also have "\<dots> = (results_of st)(p \<mapsto> r) ++ map_of (rev finished)"
    by simp
  also have "\<dots> = results_of st ++ ([p \<mapsto> r] ++ map_of (rev finished))"
    by (rule upd_then_add)
  also have "[p \<mapsto> r] ++ map_of (rev finished) = map_of (rev (x # finished))"
    by (simp add: x)
  finally show ?case using eq ih(1) by simp
qed

text \<open>
  C1, amended: when the check of a file raises a process-level exception, whatever files
  completed before it, the worker leaves the application with the check not in progress
  and with the empty map of results; the results collected until then, which the state
  before the last assignment holds, are discarded.
\<close>

theorem abort_discards_results:
  "check_in_progress (start_check_thread (completed finished @ (path, Inl e) # rest) st) = False
   \<and> check_results (start_check_thread (completed finished @ (path, Inl e) # rest) st)
       = Some Map.empty
   \<and> results_of (last (butlast (worker_trace (completed finished @ (path, Inl e) # rest) st)))
       = map_of (rev finished)"
proof -
  let ?files = "completed finished @ (path, Inl e) # rest"
  let ?st0 = "st\<lparr>check_in_progress := True, check_total := length ?files, check_done := 0,
                   check_current := None, check_results := Some Map.empty\<rparr>"
  obtain out trace where vc: "verify_case ?files Map.empty ?st0 = (out, trace)"
    by (cases "verify_case ?files Map.empty ?st0")
  from verify_case_abort [OF vc]
  have out: "out = Inl e" and res: "results_of (last (?st0 # trace)) = map_of (rev finished)"
    by (simp_all add: results_of_def)
  have wt: "worker_trace ?files st =
      (?st0 # trace) @ [(last (?st0 # trace))\<lparr>check_results := Some Map.empty,
                                               check_in_progress := False\<rparr>]"
    using vc out by (simp add: worker_trace_def Let_def)
  have "start_check_thread ?files st =
      (last (?st0 # trace))\<lparr>check_results := Some Map.empty, check_in_progress := False\<rparr>"
    unfolding start_check_thread_def wt by (rule last_snoc)
  moreover have "butlast (worker_trace ?files st) = ?st0 # trace"
    unfolding wt by (rule butlast_snoc)
  ultimately show ?thesis using res by simp
qed

text \<open>
  C1, as the specification states it: the results collected before the exception are
  kept. In the run \<open>broken_run\<close> the result of the first file is collected and is not
  in the map that the worker leaves.
\<close>

theorem abort_keeps_results_counterexample:
  "check_results (last (butlast (worker_trace broken_run fresh_state)))
     = Some [''system/controlDict'' \<mapsto> clean_result]
   \<and> check_results (start_check_thread broken_run fresh_state)
     \<noteq> Some [''system/controlDict'' \<mapsto> clean_result]
   \<and> check_in_progress (start_check_thread broken_run fresh_state) = False"
proof -
  have "Map.empty \<noteq> [''system/controlDict'' \<mapsto> clean_result]"
    by (metis map_upd_nonempty)
  then show ?thesis
    by (simp add: start_check_thread_def worker_trace_def broken_run_def fresh_state_def
        result_callback_def progress_callback_def)
qed

text \<open>A step that stores the result of a file not yet stored keeps the others.\<close>

lemma results_kept_refl: "results_of s = results_of t \<Longrightarrow> results_kept s t"
  by (simp add: results_kept_def)

lemma results_kept_new: "path \<notin> dom (results_of s) \<Longrightarrow> results_kept s (result_callback path r s)"
  by (auto simp: results_kept_def map_le_def)

lemma successively_snoc:
  "successively P (x # xs) \<Longrightarrow> P (last (x # xs)) y \<Longrightarrow> successively P ((x # xs) @ [y])"
  by (simp only: successively_append_iff) simp

lemma verify_case_keeps:
  assumes "distinct (map fst files)" and "fst ` set files \<inter> dom (results_of st) = {}"
  shows "successively results_kept (st # snd (verify_case files acc st))"
  using assms
proof (induction files arbitrary: acc st)
  case Nil
  show ?case by simp
next
  case (Cons x rest)
  obtain path outcome where x: "x = (path, outcome)" by (cases x)
  show ?case
  proof (cases outcome)
    case (Inl e)
    then show ?thesis by (simp add: x)
  next
    case (Inr result)
    let ?st1 = "result_callback path result st"
    let ?st2 = "progress_callback path ?st1"
    obtain out trace where rec: "verify_case rest (acc(path \<mapsto> result)) ?st2 = (out, trace)"
      by (cases "verify_case rest (acc(path \<mapsto> result)) ?st2")
    from Cons.prems have fresh: "path \<notin> dom (results_of st)"
      and d: "distinct (map fst rest)" and notin: "path \<notin> fst ` set rest"
      by (auto simp: x)
    from Cons.prems notin have "fst ` set rest \<inter> dom (results_of ?st2) = {}"
      by (auto simp: x)
    with d have "successively results_kept
        (?st2 # snd (verify_case rest (acc(path \<mapsto> result)) ?st2))"
      by (rule Cons.IH)
    then have ih: "successively results_kept (?st2 # trace)"
      unfolding rec by simp
    have one: "results_kept st ?st1"
      using fresh by (rule results_kept_new)
    have two: "results_kept ?st1 ?st2"
      by (rule results_kept_refl) simp
    have "snd (verify_case (x # rest) acc st) = ?st1 # ?st2 # trace"
      using rec by (simp add: x Inr Let_def)
    with one two ih show ?thesis
      by simp
  qed
qed

lemma verify_case_returns:
  assumes "list_all checked_ok files" and "results_of st = acc"
    and "verify_case files acc st = (out, trace)"
  shows "out = Inr (results_of (last (st # trace)))"
  using assms
proof (induction files arbitrary: acc st out trace)
  case Nil
  then show ?case by simp
next
  case (Cons x rest)
  obtain path outcome where x: "x = (path, outcome)" by (cases x)
  from Cons.prems(1) obtain result where Inr: "outcome = Inr result"
    by (cases outcome) (simp_all add: x checked_ok_def)
  let ?st1 = "result_callback path result st"
  let ?st2 = "progress_callback path ?st1"
  obtain out' trace' where rec: "verify_case rest (acc(path \<mapsto> result)) ?st2 = (out', trace')"
    by (cases "verify_case rest (acc(path \<mapsto> result)) ?st2")
  from Cons.prems rec have eq: "out = out'" "trace = ?st1 # ?st2 # trace'"
    by (simp_all add: x Inr Let_def)
  from Cons.prems have ok: "list_all checked_ok rest"
    and acc: "results_of ?st2 = acc(path \<mapsto> result)"
    by simp_all
  have "out' = Inr (results_of (last (?st2 # trace')))"
    using ok acc rec by (rule Cons.IH)
  moreover have "last (st # trace) = last (?st2 # trace')"
    unfolding eq by (rule last_two_more)
  ultimately show ?case using eq by simp
qed

text \<open>
  C2, amended: when the files of a run are distinct, every step of the worker up to the
  end of \<open>verify_case\<close> keeps every stored result, and so does the last assignment when
  every file got a result. (When a process-level exception ends the run, the last
  assignment empties the map.)
\<close>

theorem results_kept_until_abort:
  assumes "distinct (map fst files)"
  shows "successively results_kept (butlast (worker_trace files st))
     \<and> (list_all checked_ok files \<longrightarrow> successively results_kept (worker_trace files st))"
proof -
  let ?st0 = "st\<lparr>check_in_progress := True, check_total := length files, check_done := 0,
                   check_current := None, check_results := Some Map.empty\<rparr>"
  obtain out trace where vc: "verify_case files Map.empty ?st0 = (out, trace)"
    by (cases "verify_case files Map.empty ?st0")
  let ?final = "(last (?st0 # trace))\<lparr>check_results :=
      Some (case out of Inl e \<Rightarrow> Map.empty | Inr m \<Rightarrow> m), check_in_progress := False\<rparr>"
  have wt: "worker_trace files st = (?st0 # trace) @ [?final]"
    using vc by (simp add: worker_trace_def Let_def)
  have empty: "results_of ?st0 = Map.empty"
    by (simp add: results_of_def)
  then have "fst ` set files \<inter> dom (results_of ?st0) = {}"
    by simp
  from verify_case_keeps [OF assms this, of Map.empty] vc
  have steps: "successively results_kept (?st0 # trace)"
    by simp
  have first: "successively results_kept (butlast (worker_trace files st))"
    unfolding wt butlast_snoc by (rule steps)
  have second: "successively results_kept (worker_trace files st)" if ok: "list_all checked_ok files"
  proof -
    from verify_case_returns [OF ok empty vc]
    have "results_of ?final = results_of (last (?st0 # trace))"
      by (simp add: results_of_def)
    then have "results_kept (last (?st0 # trace)) ?final"
      by (simp add: results_kept_def)
    with steps show ?thesis
      unfolding wt by (rule successively_snoc)
  qed
  from first second show ?thesis by blast
qed

theorem results_kept_until_abort_witness:
  "distinct (map fst good_run) \<and> list_all checked_ok good_run
   \<and> successively results_kept (butlast (worker_trace good_run fresh_state))
   \<and> successively results_kept (worker_trace good_run fresh_state)"
proof -
  have a: "distinct (map fst good_run)"
    by (simp add: good_run_def)
  have b: "list_all checked_ok good_run"
    by (simp add: good_run_def checked_ok_def)
  from results_kept_until_abort [OF a, of fresh_state] a b show ?thesis
    by blast
qed

text \<open>
  C2, as the specification states it: no stored result is ever removed within a run.
  In the run \<open>late_broken_run\<close> two results are stored and the last step removes them.
\<close>

theorem results_dropped_counterexample:
  "\<not> successively results_kept (worker_trace late_broken_run fresh_state)"
proof -
  let ?m = "[''0/U'' \<mapsto> two_errors, ''0/p'' \<mapsto> one_warning]"
  let ?s4 = "fresh_state\<lparr>check_in_progress := True, check_total := 3, check_done := 2,
      check_current := Some ''0/p'', check_results := Some ?m\<rparr>"
  let ?final = "?s4\<lparr>check_results := Some Map.empty, check_in_progress := False\<rparr>"
  have "\<not> results_kept ?s4 ?final"
    by (simp add: results_kept_def results_of_def map_le_def)
  moreover have "\<exists>pre. worker_trace late_broken_run fresh_state = pre @ [?s4, ?final]"
    by (simp add: worker_trace_def late_broken_run_def result_callback_def
        progress_callback_def fresh_state_def)
  ultimately show ?thesis
    by (auto simp: successively_append_iff)
qed

end
